theory Spec2Isabelle
  imports Main
begin

section \<open>Availability computation of the booking backend (src/backend/main.py)\<close>

text \<open>
  The embedding follows \<^verbatim>\<open>main.py\<close>: \<^verbatim>\<open>get_business_hours\<close>,
  \<^verbatim>\<open>fetch_busy_intervals_ical\<close>, \<^verbatim>\<open>generate_slots\<close> and the route
  \<^verbatim>\<open>availability\<close>. Exceptions are values of a sum type, the environment and the
  libraries the program calls (the HTTP client, the calendar parser, the zone database)
  are fields of a record that the functions receive, and a loop that need not end is a
  function into \<open>option\<close>, where \<open>None\<close> means that it does not return.
\<close>

subsection \<open>Exceptions\<close>

datatype error =
    ValueError
  | OverflowError
  | UnknownTimeZoneError
  | ImportError
  | RequestException
  | HTTPError
  | CalendarParseError
  | EventFieldError
  | RequestValidationError

subsection \<open>Dates and times of the standard library\<close>

text \<open>
  A naive \<^verbatim>\<open>datetime\<close> is the number of microseconds since the start of the
  proleptic Gregorian day with ordinal 0, so that \<^verbatim>\<open>toordinal()\<close> is the quotient by
  the length of a day and 0001-01-01T00:00 is one day. The ordinal of a date is computed
  as the standard library computes it.
\<close>

type_synonym naive = int

definition us_per_minute :: int where
  "us_per_minute = 60000000"

definition us_per_day :: int where
  "us_per_day = 86400000000"

definition MAXORDINAL :: int where
  "MAXORDINAL = 3652059"

definition is_leap :: "int \<Rightarrow> bool" where
  "is_leap y = (y mod 4 = 0 \<and> (y mod 100 \<noteq> 0 \<or> y mod 400 = 0))"

definition days_in_month :: "int \<Rightarrow> int \<Rightarrow> int" where
  "days_in_month y m =
     (if m = 2 \<and> is_leap y then 29
      else [31, 28, 31, 30, 31, 30, 31, 31, 30, 31, 30, 31] ! nat (m - 1))"

definition days_before_year :: "int \<Rightarrow> int" where
  "days_before_year y =
     (y - 1) * 365 + (y - 1) div 4 - (y - 1) div 100 + (y - 1) div 400"

definition days_before_month :: "int \<Rightarrow> int \<Rightarrow> int" where
  "days_before_month y m =
     [0, 31, 59, 90, 120, 151, 181, 212, 243, 273, 304, 334] ! nat (m - 1)
       + (if m > 2 \<and> is_leap y then 1 else 0)"

definition ymd2ord :: "int \<Rightarrow> int \<Rightarrow> int \<Rightarrow> int" where
  "ymd2ord y m d = days_before_year y + days_before_month y m + d"

definition toordinal :: "naive \<Rightarrow> int" where
  "toordinal dt = dt div us_per_day"

text \<open>\<^verbatim>\<open>datetime(y, m, d)\<close>: midnight of a date, \<^verbatim>\<open>ValueError\<close> outside the calendar.\<close>

definition mk_datetime :: "int \<Rightarrow> int \<Rightarrow> int \<Rightarrow> error + naive" where
  "mk_datetime y m d =
     (if 1 \<le> y \<and> y \<le> 9999 \<and> 1 \<le> m \<and> m \<le> 12 \<and> 1 \<le> d \<and> d \<le> days_in_month y m
      then Inr (ymd2ord y m d * us_per_day)
      else Inl ValueError)"

text \<open>\<^verbatim>\<open>weekday()\<close>: Monday is 0, Sunday is 6.\<close>

definition weekday :: "naive \<Rightarrow> int" where
  "weekday dt = (toordinal dt + 6) mod 7"

text \<open>\<^verbatim>\<open>time(h, m)\<close> and \<^verbatim>\<open>datetime.combine(d.date(), t)\<close>.\<close>

datatype time = Time (hour: int) (minute: int)

definition time_us :: "time \<Rightarrow> int" where
  "time_us t = (hour t * 60 + minute t) * us_per_minute"

definition combine :: "naive \<Rightarrow> time \<Rightarrow> naive" where
  "combine dt t = toordinal dt * us_per_day + time_us t"

text \<open>
  \<^verbatim>\<open>timedelta(minutes=m)\<close> is a number of microseconds; the constructor raises
  \<^verbatim>\<open>OverflowError\<close> when the number of whole days leaves \<open>\<plusminus>999999999\<close>.
\<close>

definition timedelta_minutes :: "int \<Rightarrow> error + int" where
  "timedelta_minutes m =
     (if \<bar>(m * us_per_minute) div us_per_day\<bar> > 999999999 then Inl OverflowError
      else Inr (m * us_per_minute))"

text \<open>
  \<^verbatim>\<open>dt + delta\<close> on the wall clock: \<^verbatim>\<open>OverflowError\<close> when the day of the result
  is not in \<open>1 .. MAXORDINAL\<close> (years 1 to 9999).
\<close>

definition naive_add :: "naive \<Rightarrow> int \<Rightarrow> error + naive" where
  "naive_add dt delta =
     (let r = dt + delta
      in if 0 < r div us_per_day \<and> r div us_per_day \<le> MAXORDINAL then Inr r
         else Inl OverflowError)"

subsection \<open>Parsing the date argument\<close>

definition is_digit :: "char \<Rightarrow> bool" where
  "is_digit c = (48 \<le> (of_char c :: nat) \<and> (of_char c :: nat) \<le> 57)"

definition digit_val :: "char \<Rightarrow> int" where
  "digit_val c = int (of_char c) - 48"

text \<open>The route's pattern \<^verbatim>\<open>^\d{4}-\d{2}-\d{2}$\<close>.\<close>

fun date_pattern :: "string \<Rightarrow> bool" where
  "date_pattern [y1, y2, y3, y4, s1, m1, m2, s2, d1, d2] =
     (is_digit y1 \<and> is_digit y2 \<and> is_digit y3 \<and> is_digit y4 \<and> s1 = CHR ''-''
      \<and> is_digit m1 \<and> is_digit m2 \<and> s2 = CHR ''-'' \<and> is_digit d1 \<and> is_digit d2)"
| "date_pattern _ = False"

text \<open>
  \<^verbatim>\<open>datetime.strptime(s, "%Y-%m-%d")\<close>. The directives are the standard library's
  regular expressions: \<^verbatim>\<open>%Y\<close> is four digits, \<^verbatim>\<open>%m\<close> is
  \<^verbatim>\<open>1[0-2]|0[1-9]|[1-9]\<close> and \<^verbatim>\<open>%d\<close> is
  \<^verbatim>\<open>3[0-1]|[1-2]\d|0[1-9]|[1-9]| [1-9]\<close>, tried in this order; text left after
  the match, and a date that is not in the calendar, are a \<^verbatim>\<open>ValueError\<close>.
\<close>

fun match_year :: "string \<Rightarrow> (int \<times> string) option" where
  "match_year (a # b # c # d # rest) =
     (if is_digit a \<and> is_digit b \<and> is_digit c \<and> is_digit d
      then Some (digit_val a * 1000 + digit_val b * 100 + digit_val c * 10 + digit_val d, rest)
      else None)"
| "match_year _ = None"

fun match_month :: "string \<Rightarrow> (int \<times> string) option" where
  "match_month (a # b # rest) =
     (if a = CHR ''1'' \<and> is_digit b \<and> digit_val b \<le> 2 then Some (10 + digit_val b, rest)
      else if a = CHR ''0'' \<and> is_digit b \<and> 1 \<le> digit_val b then Some (digit_val b, rest)
      else if is_digit a \<and> 1 \<le> digit_val a then Some (digit_val a, b # rest)
      else None)"
| "match_month [a] = (if is_digit a \<and> 1 \<le> digit_val a then Some (digit_val a, []) else None)"
| "match_month [] = None"

fun match_day :: "string \<Rightarrow> (int \<times> string) option" where
  "match_day (a # b # rest) =
     (if a = CHR ''3'' \<and> is_digit b \<and> digit_val b \<le> 1 then Some (30 + digit_val b, rest)
      else if is_digit a \<and> 1 \<le> digit_val a \<and> digit_val a \<le> 2 \<and> is_digit b
        then Some (digit_val a * 10 + digit_val b, rest)
      else if a = CHR ''0'' \<and> is_digit b \<and> 1 \<le> digit_val b then Some (digit_val b, rest)
      else if is_digit a \<and> 1 \<le> digit_val a then Some (digit_val a, b # rest)
      else if a = CHR '' '' \<and> is_digit b \<and> 1 \<le> digit_val b then Some (digit_val b, rest)
      else None)"
| "match_day [a] = (if is_digit a \<and> 1 \<le> digit_val a then Some (digit_val a, []) else None)"
| "match_day [] = None"

fun expect_dash :: "string \<Rightarrow> string option" where
  "expect_dash (c # rest) = (if c = CHR ''-'' then Some rest else None)"
| "expect_dash [] = None"

definition strptime :: "string \<Rightarrow> error + naive" where
  "strptime s =
     (case match_year s of
        None \<Rightarrow> Inl ValueError
      | Some (y, s1) \<Rightarrow>
          (case expect_dash s1 of
             None \<Rightarrow> Inl ValueError
           | Some s2 \<Rightarrow>
               (case match_month s2 of
                  None \<Rightarrow> Inl ValueError
                | Some (m, s3) \<Rightarrow>
                    (case expect_dash s3 of
                       None \<Rightarrow> Inl ValueError
                     | Some s4 \<Rightarrow>
                         (case match_day s4 of
                            None \<Rightarrow> Inl ValueError
                          | Some (d, s5) \<Rightarrow>
                              if s5 \<noteq> [] then Inl ValueError else mk_datetime y m d)))))"

subsection \<open>Business hours\<close>

definition get_business_hours :: "naive \<Rightarrow> (time \<times> time) option" where
  "get_business_hours day =
     (let w = weekday day
      in if w \<in> {0, 1, 2, 3, 4} then Some (Time 9 0, Time 18 0)
         else if w = 5 then Some (Time 10 0, Time 14 0)
         else None)"

subsection \<open>Aware datetimes and time zones\<close>

text \<open>
  An aware \<^verbatim>\<open>datetime\<close> is a wall-clock reading with the UTC offset of its
  \<^verbatim>\<open>tzinfo\<close> (microseconds). Aware values are compared on the instant they
  denote; adding a \<^verbatim>\<open>timedelta\<close> moves the wall clock and keeps the \<^verbatim>\<open>tzinfo\<close>.
\<close>

record aware =
  wall :: naive
  utcoffset :: int

definition instant :: "aware \<Rightarrow> int" where
  "instant a = wall a - utcoffset a"

definition dt_lt :: "aware \<Rightarrow> aware \<Rightarrow> bool" where
  "dt_lt a b = (instant a < instant b)"

definition dt_le :: "aware \<Rightarrow> aware \<Rightarrow> bool" where
  "dt_le a b = (instant a \<le> instant b)"

definition dt_gt :: "aware \<Rightarrow> aware \<Rightarrow> bool" where
  "dt_gt a b = (instant a > instant b)"

text \<open>The builtins \<^verbatim>\<open>max(a, b)\<close> and \<^verbatim>\<open>min(a, b)\<close> keep \<open>a\<close> on a tie.\<close>

definition dt_max :: "aware \<Rightarrow> aware \<Rightarrow> aware" where
  "dt_max a b = (if dt_gt b a then b else a)"

definition dt_min :: "aware \<Rightarrow> aware \<Rightarrow> aware" where
  "dt_min a b = (if dt_lt b a then b else a)"

definition dt_add :: "aware \<Rightarrow> int \<Rightarrow> error + aware" where
  "dt_add a delta =
     (case naive_add (wall a) delta of
        Inl err \<Rightarrow> Inl err
      | Inr w \<Rightarrow> Inr (a\<lparr>wall := w\<rparr>))"

text \<open>
  \<^verbatim>\<open>isoformat()\<close> of an aware datetime. The date is recovered from the ordinal as
  the standard library does it (\<^verbatim>\<open>_ord2ymd\<close>); the fraction of a second and the
  seconds of the offset are printed only when they are not zero.
\<close>

definition ord2ymd :: "int \<Rightarrow> int \<times> int \<times> int" where
  "ord2ymd n0 =
     (let n = n0 - 1;
          n400 = n div 146097; n = n mod 146097;
          year = n400 * 400 + 1;
          n100 = n div 36524; n = n mod 36524;
          n4 = n div 1461; n = n mod 1461;
          n1 = n div 365; n = n mod 365;
          year = year + n100 * 100 + n4 * 4 + n1
      in if n1 = 4 \<or> n100 = 4 then (year - 1, 12, 31)
         else
           (let leapyear = (n1 = 3 \<and> (n4 \<noteq> 24 \<or> n100 = 3));
                month = (n + 50) div 32;
                preceding = [0, 31, 59, 90, 120, 151, 181, 212, 243, 273, 304, 334] ! nat (month - 1)
                              + (if month > 2 \<and> leapyear then 1 else 0)
            in if preceding > n
               then
                 (let month = month - 1;
                      preceding = preceding
                        - ([31, 28, 31, 30, 31, 30, 31, 31, 30, 31, 30, 31] ! nat (month - 1)
                           + (if month = 2 \<and> leapyear then 1 else 0))
                  in (year, month, n - preceding + 1))
               else (year, month, n - preceding + 1)))"

fun decimal :: "nat \<Rightarrow> string" where
  "decimal n =
     (if n < 10 then [char_of (48 + n)] else decimal (n div 10) @ [char_of (48 + n mod 10)])"

text \<open>The formats \<^verbatim>\<open>%02d\<close>, \<^verbatim>\<open>%04d\<close> and \<^verbatim>\<open>%06d\<close> on a number that is not negative.\<close>

definition zero_padded :: "nat \<Rightarrow> int \<Rightarrow> string" where
  "zero_padded width n =
     (let ds = decimal (nat n) in replicate (width - length ds) (CHR ''0'') @ ds)"

definition us_per_second :: int where
  "us_per_second = 1000000"

definition format_time :: "int \<Rightarrow> string" where
  "format_time tod =
     (let secs = tod div us_per_second; us = tod mod us_per_second
      in zero_padded 2 (secs div 3600) @ '':'' @ zero_padded 2 (secs mod 3600 div 60) @ '':''
           @ zero_padded 2 (secs mod 60)
           @ (if us \<noteq> 0 then ''.'' @ zero_padded 6 us else []))"

definition format_offset :: "int \<Rightarrow> string" where
  "format_offset off0 =
     (let sign = (if off0 < 0 then ''-'' else ''+'');
          off = (if off0 < 0 then - off0 else off0);
          hh = off div (60 * us_per_minute);
          mm = off mod (60 * us_per_minute) div us_per_minute;
          ss = off mod us_per_minute
      in sign @ zero_padded 2 hh @ '':'' @ zero_padded 2 mm
           @ (if ss \<noteq> 0
              then '':'' @ zero_padded 2 (ss div us_per_second)
                     @ (if ss mod us_per_second \<noteq> 0
                        then ''.'' @ zero_padded 6 (ss mod us_per_second) else [])
              else []))"

definition isoformat :: "aware \<Rightarrow> string" where
  "isoformat a =
     (case ord2ymd (toordinal (wall a)) of
        (y, m, d) \<Rightarrow>
          zero_padded 4 y @ ''-'' @ zero_padded 2 m @ ''-'' @ zero_padded 2 d @ ''T''
            @ format_time (wall a mod us_per_day) @ format_offset (utcoffset a))"

text \<open>
  The zone database (pytz) is not part of the repository. A zone is taken as its two
  offset tables: the offset \<^verbatim>\<open>localize\<close> attaches to a wall-clock reading, and the
  offset in force at a UTC reading, which \<^verbatim>\<open>astimezone\<close> uses. \<^verbatim>\<open>localize\<close> can
  raise: for a zone with transitions pytz looks one day before and one day after the
  reading, which is an \<^verbatim>\<open>OverflowError\<close> at the two ends of the calendar.
\<close>

record tzinfo =
  offset_of_local :: "naive \<Rightarrow> error + int"
  offset_of_utc :: "naive \<Rightarrow> int"

definition localize :: "tzinfo \<Rightarrow> naive \<Rightarrow> error + aware" where
  "localize tz dt =
     (case offset_of_local tz dt of
        Inl err \<Rightarrow> Inl err
      | Inr off \<Rightarrow> Inr \<lparr>wall = dt, utcoffset = off\<rparr>)"

definition astimezone :: "aware \<Rightarrow> tzinfo \<Rightarrow> error + aware" where
  "astimezone a tz =
     (case naive_add (wall a) (- utcoffset a) of
        Inl err \<Rightarrow> Inl err
      | Inr utc \<Rightarrow>
          (case naive_add utc (offset_of_utc tz utc) of
             Inl err \<Rightarrow> Inl err
           | Inr w \<Rightarrow> Inr \<lparr>wall = w, utcoffset = offset_of_utc tz utc\<rparr>))"

subsection \<open>The environment of a request\<close>

text \<open>
  A calendar event as the program reads it: \<^verbatim>\<open>event.begin.datetime\<close> raises or is a
  datetime, naive or aware; \<^verbatim>\<open>event.end\<close> is falsy (\<open>None\<close>), or reading
  \<^verbatim>\<open>event.end.datetime\<close> raises or is a datetime.
\<close>

datatype pydatetime = Naive naive | Aware aware

record event =
  begin_datetime :: "error + pydatetime"
  end_datetime :: "(error + pydatetime) option"

record response =
  status_code :: nat
  resp_text :: string

text \<open>
  What a request reads from outside: the process environment, whether the \<^verbatim>\<open>ics\<close>
  package can be imported, the answer of \<^verbatim>\<open>requests.get\<close> for a URL, the events
  \<^verbatim>\<open>Calendar(text).events\<close> of a feed, and the zone \<^verbatim>\<open>pytz.timezone(name)\<close> of an
  identifier, which raises \<^verbatim>\<open>UnknownTimeZoneError\<close> for a name pytz does not know.
\<close>

record world =
  environ :: "string \<rightharpoonup> string"
  ics_importable :: bool
  requests_get :: "string \<Rightarrow> error + response"
  Calendar :: "string \<Rightarrow> error + event list"
  pytz_timezone :: "string \<Rightarrow> error + tzinfo"

definition getenv :: "world \<Rightarrow> string \<Rightarrow> string option" where
  "getenv w k = environ w k"

definition getenv_default :: "world \<Rightarrow> string \<Rightarrow> string \<Rightarrow> string" where
  "getenv_default w k d = (case environ w k of None \<Rightarrow> d | Some v \<Rightarrow> v)"

text \<open>\<^verbatim>\<open>str.strip()\<close>: the characters for which \<^verbatim>\<open>str.isspace\<close> holds.\<close>

definition is_space :: "char \<Rightarrow> bool" where
  "is_space c = ((of_char c :: nat) \<in> {9, 10, 11, 12, 13, 28, 29, 30, 31, 32, 133, 160})"

definition strip :: "string \<Rightarrow> string" where
  "strip s = rev (dropWhile is_space (rev (dropWhile is_space s)))"

text \<open>\<^verbatim>\<open>bool(os.getenv(k))\<close>: set and not the empty string.\<close>

definition env_truthy :: "world \<Rightarrow> string \<Rightarrow> bool" where
  "env_truthy w k = (case getenv w k of None \<Rightarrow> False | Some v \<Rightarrow> v \<noteq> [])"

text \<open>\<^verbatim>\<open>resp.raise_for_status()\<close> raises for the status codes 400 to 599.\<close>

definition raise_for_status :: "response \<Rightarrow> error + unit" where
  "raise_for_status r =
     (if 400 \<le> status_code r \<and> status_code r < 600 then Inl HTTPError else Inr ())"

subsection \<open>Busy intervals\<close>

type_synonym interval = "aware \<times> aware"

text \<open>
  The \<^verbatim>\<open>try\<close> block of the event loop: \<open>None\<close> is the \<^verbatim>\<open>continue\<close> of its
  \<^verbatim>\<open>except\<close> clause. An event without an end lasts 30 minutes.
\<close>

definition py_add :: "pydatetime \<Rightarrow> int \<Rightarrow> error + pydatetime" where
  "py_add d delta =
     (case d of
        Naive n \<Rightarrow> (case naive_add n delta of Inl err \<Rightarrow> Inl err | Inr r \<Rightarrow> Inr (Naive r))
      | Aware a \<Rightarrow> (case dt_add a delta of Inl err \<Rightarrow> Inl err | Inr r \<Rightarrow> Inr (Aware r)))"

definition event_fields :: "event \<Rightarrow> (pydatetime \<times> pydatetime) option" where
  "event_fields ev =
     (case begin_datetime ev of
        Inl err \<Rightarrow> None
      | Inr ev_start \<Rightarrow>
          (case end_datetime ev of
             Some (Inl err) \<Rightarrow> None
           | Some (Inr ev_end) \<Rightarrow> Some (ev_start, ev_end)
           | None \<Rightarrow>
               (case py_add ev_start (30 * us_per_minute) of
                  Inl err \<Rightarrow> None
                | Inr ev_end \<Rightarrow> Some (ev_start, ev_end))))"

text \<open>Normalisation to the local zone; it is outside the \<^verbatim>\<open>try\<close> block.\<close>

definition normalize :: "tzinfo \<Rightarrow> pydatetime \<Rightarrow> error + aware" where
  "normalize tz d =
     (case d of
        Naive n \<Rightarrow> localize tz n
      | Aware a \<Rightarrow> astimezone a tz)"

fun event_loop :: "tzinfo \<Rightarrow> aware \<Rightarrow> aware \<Rightarrow> event list \<Rightarrow> interval list
    \<Rightarrow> error + interval list" where
  "event_loop tz start_of_day end_of_day [] busy = Inr busy"
| "event_loop tz start_of_day end_of_day (ev # evs) busy =
     (case event_fields ev of
        None \<Rightarrow> event_loop tz start_of_day end_of_day evs busy
      | Some (ev_start0, ev_end0) \<Rightarrow>
          (case normalize tz ev_start0 of
             Inl err \<Rightarrow> Inl err
           | Inr ev_start \<Rightarrow>
               (case normalize tz ev_end0 of
                  Inl err \<Rightarrow> Inl err
                | Inr ev_end \<Rightarrow>
                    (let latest_start = dt_max ev_start start_of_day;
                         earliest_end = dt_min ev_end end_of_day
                     in if dt_lt latest_start earliest_end
                        then event_loop tz start_of_day end_of_day evs
                               (busy @ [(latest_start, earliest_end)])
                        else event_loop tz start_of_day end_of_day evs busy))))"

text \<open>
  The merge of lines 143 to 152: a stable sort on the start, then one pass that either
  appends the interval or extends the last merged one.
\<close>

definition merge_step :: "interval list \<Rightarrow> interval \<Rightarrow> interval list" where
  "merge_step merged x =
     (case x of (s, e) \<Rightarrow>
        if merged = [] \<or> dt_gt s (snd (last merged)) then merged @ [(s, e)]
        else butlast merged @ [(fst (last merged), dt_max (snd (last merged)) e)])"

definition merge_busy :: "interval list \<Rightarrow> interval list" where
  "merge_busy busy = foldl merge_step [] (sort_key (\<lambda>x. instant (fst x)) busy)"

text \<open>
  The fetcher returns the list of URLs it requested beside its result, so that a request
  that was never made can be told from one that failed.
\<close>

definition fetch_busy_intervals_ical :: "world \<Rightarrow> naive \<Rightarrow> tzinfo
    \<Rightarrow> string list \<times> (error + interval list)" where
  "fetch_busy_intervals_ical w date_local tz =
     (let ical_url = strip (getenv_default w ''GOOGLE_CALENDAR_ICAL_URL'' [])
      in if ical_url = [] then ([], Inr [])
         else if \<not> ics_importable w then ([], Inr [])
         else
           (case requests_get w ical_url of
              Inl err \<Rightarrow> ([ical_url], Inr [])
            | Inr resp \<Rightarrow>
                (case raise_for_status resp of
                   Inl err \<Rightarrow> ([ical_url], Inr [])
                 | Inr u \<Rightarrow>
                     (case Calendar w (resp_text resp) of
                        Inl err \<Rightarrow> ([ical_url], Inr [])
                      | Inr events \<Rightarrow>
                          (case localize tz (toordinal date_local * us_per_day) of
                             Inl err \<Rightarrow> ([ical_url], Inl err)
                           | Inr start_of_day \<Rightarrow>
                               (case dt_add start_of_day us_per_day of
                                  Inl err \<Rightarrow> ([ical_url], Inl err)
                                | Inr end_of_day \<Rightarrow>
                                    (case event_loop tz start_of_day end_of_day events [] of
                                       Inl err \<Rightarrow> ([ical_url], Inl err)
                                     | Inr busy \<Rightarrow>
                                         ([ical_url], Inr (merge_busy busy)))))))))"

subsection \<open>Slot enumeration\<close>

fun is_free :: "interval list \<Rightarrow> aware \<Rightarrow> aware \<Rightarrow> bool" where
  "is_free [] s e = True"
| "is_free ((b_start, b_end) # busy) s e =
     (if dt_lt s b_end \<and> dt_gt e b_start then False else is_free busy s e)"

text \<open>
  The \<^verbatim>\<open>while\<close> loop of \<^verbatim>\<open>generate_slots\<close>. Nothing in the program bounds the
  number of its iterations, so the result is an \<open>option\<close>: \<open>None\<close> when the loop runs
  forever, \<open>Some (Inl err)\<close> when \<^verbatim>\<open>cur + delta\<close> raises, \<open>Some (Inr slots)\<close>
  when it ends.
\<close>

partial_function (option) slot_loop :: "interval list \<Rightarrow> int \<Rightarrow> aware \<Rightarrow> aware \<Rightarrow> string list
    \<Rightarrow> (error + string list) option" where
  "slot_loop busy delta end_t cur slots =
     (case dt_add cur delta of
        Inl err \<Rightarrow> Some (Inl err)
      | Inr e \<Rightarrow>
          if dt_le e end_t
          then slot_loop busy delta end_t e
                 (if is_free busy cur e then slots @ [isoformat cur] else slots)
          else Some (Inr slots))"

declare slot_loop.simps [code]

subsection \<open>The availability computation and its route\<close>

record AvailabilityResponse =
  date :: string
  timezone :: string
  slot_minutes :: int
  slots :: "string list"
  configured :: bool

definition generate_slots :: "world \<Rightarrow> string \<Rightarrow> int
    \<Rightarrow> (string list \<times> (error + AvailabilityResponse)) option" where
  "generate_slots w date_str slot_mins =
     (let tz_name = getenv_default w ''BUSINESS_TZ'' ''Europe/Amsterdam''
      in case pytz_timezone w tz_name of
           Inl err \<Rightarrow> Some ([], Inl err)
         | Inr tz \<Rightarrow>
             (case strptime date_str of
                Inl err \<Rightarrow> Some ([], Inl err)
              | Inr date_local \<Rightarrow>
                  (case get_business_hours date_local of
                     None \<Rightarrow>
                       Some ([], Inr \<lparr>date = date_str, timezone = tz_name,
                                      slot_minutes = slot_mins, slots = [],
                                      configured = env_truthy w ''GOOGLE_CALENDAR_ICAL_URL''\<rparr>)
                   | Some (open_t, close_t) \<Rightarrow>
                       (case localize tz (combine date_local open_t) of
                          Inl err \<Rightarrow> Some ([], Inl err)
                        | Inr start \<Rightarrow>
                            (case localize tz (combine date_local close_t) of
                               Inl err \<Rightarrow> Some ([], Inl err)
                             | Inr end_t \<Rightarrow>
                                 (case fetch_busy_intervals_ical w date_local tz of
                                    (reqs, Inl err) \<Rightarrow> Some (reqs, Inl err)
                                  | (reqs, Inr busy) \<Rightarrow>
                                      (case timedelta_minutes slot_mins of
                                         Inl err \<Rightarrow> Some (reqs, Inl err)
                                       | Inr delta \<Rightarrow>
                                           (case slot_loop busy delta end_t start [] of
                                              None \<Rightarrow> None
                                            | Some (Inl err) \<Rightarrow> Some (reqs, Inl err)
                                            | Some (Inr sl) \<Rightarrow>
                                                Some (reqs,
                                                  Inr \<lparr>date = date_str, timezone = tz_name,
                                                       slot_minutes = slot_mins, slots = sl,
                                                       configured =
                                                         env_truthy w
                                                           ''GOOGLE_CALENDAR_ICAL_URL''\<rparr>)))))))))"

text \<open>The route rejects a \<^verbatim>\<open>date\<close> that does not match its pattern before the core runs.\<close>

definition availability :: "world \<Rightarrow> string \<Rightarrow> int
    \<Rightarrow> (string list \<times> (error + AvailabilityResponse)) option" where
  "availability w date_str slot_mins =
     (if date_pattern date_str then generate_slots w date_str slot_mins
      else Some ([], Inl RequestValidationError))"

subsection \<open>Notions used in the statements\<close>

definition start_key :: "interval \<Rightarrow> int" where
  "start_key x = instant (fst x)"

text \<open>Two intervals are apart when the first ends strictly before the second starts.\<close>

definition apart :: "interval \<Rightarrow> interval \<Rightarrow> bool" where
  "apart a b = (instant (snd a) < instant (fst b))"

text \<open>An interval is proper when it starts strictly before it ends.\<close>

definition proper :: "interval \<Rightarrow> bool" where
  "proper x = (instant (fst x) < instant (snd x))"

text \<open>
  A rendered slot fits when it is the \<^verbatim>\<open>isoformat\<close> of a start \<open>s\<close> whose candidate
  from \<open>s\<close> to \<open>s + delta\<close> lies in the window and passes \<^verbatim>\<open>is_free\<close>.
\<close>

definition fits :: "interval list \<Rightarrow> int \<Rightarrow> aware \<Rightarrow> aware \<Rightarrow> string \<Rightarrow> bool" where
  "fits busy delta open_t close_t x =
     (\<exists>s e. x = isoformat s \<and> dt_add s delta = Inr e \<and> dt_le open_t s \<and> dt_le e close_t
            \<and> is_free busy s e)"

subsection \<open>Concrete requests\<close>

text \<open>
  The zone of the examples is Europe/Amsterdam with its summer offset of two hours, as on
  the days of June 2024; its \<^verbatim>\<open>localize\<close> adds a day to the reading and takes one off,
  as pytz does for a zone with transitions. The zone UTC has no transitions and its
  \<^verbatim>\<open>localize\<close> only attaches the offset. 2024-06-01 is a Saturday, 2024-06-02 a Sunday,
  2024-06-05 a Wednesday and 9999-12-31, the last day of the calendar, a Friday.
\<close>

definition wall_at :: "int \<Rightarrow> int \<Rightarrow> int \<Rightarrow> int \<Rightarrow> int \<Rightarrow> naive" where
  "wall_at y m d hh mm = ymd2ord y m d * us_per_day + (hh * 60 + mm) * us_per_minute"

definition cest :: tzinfo where
  "cest =
     \<lparr>offset_of_local =
        (\<lambda>dt. case naive_add dt (- us_per_day) of
                 Inl err \<Rightarrow> Inl err
               | Inr before \<Rightarrow>
                   (case naive_add dt us_per_day of
                      Inl err \<Rightarrow> Inl err
                    | Inr after \<Rightarrow> Inr (120 * us_per_minute))),
      offset_of_utc = (\<lambda>dt. 120 * us_per_minute)\<rparr>"

definition utc :: tzinfo where
  "utc = \<lparr>offset_of_local = (\<lambda>dt. Inr 0), offset_of_utc = (\<lambda>dt. 0)\<rparr>"

definition zone_database :: "string \<Rightarrow> error + tzinfo" where
  "zone_database name =
     (if name = ''Europe/Amsterdam'' then Inr cest
      else if name = ''UTC'' then Inr utc
      else Inl UnknownTimeZoneError)"

definition at_cest :: "int \<Rightarrow> int \<Rightarrow> int \<Rightarrow> int \<Rightarrow> int \<Rightarrow> aware" where
  "at_cest y m d hh mm = \<lparr>wall = wall_at y m d hh mm, utcoffset = 120 * us_per_minute\<rparr>"

definition feed_url :: string where
  "feed_url = ''https://calendar.example/basic.ics''"

text \<open>An event from 10:00 to 11:00 on Saturday 2024-06-01, and one whose start cannot be read.\<close>

definition saturday_event :: event where
  "saturday_event =
     \<lparr>begin_datetime = Inr (Aware (at_cest 2024 6 1 10 0)),
      end_datetime = Some (Inr (Aware (at_cest 2024 6 1 11 0)))\<rparr>"

definition unparsable_event :: event where
  "unparsable_event = \<lparr>begin_datetime = Inl EventFieldError, end_datetime = None\<rparr>"

text \<open>A feed with the one event of that Saturday.\<close>

definition saturday_world :: world where
  "saturday_world =
     \<lparr>environ = [''GOOGLE_CALENDAR_ICAL_URL'' \<mapsto> feed_url],
      ics_importable = True,
      requests_get = (\<lambda>url. Inr \<lparr>status_code = 200, resp_text = ''BEGIN:VCALENDAR''\<rparr>),
      Calendar = (\<lambda>txt. Inr [saturday_event]),
      pytz_timezone = zone_database\<rparr>"

text \<open>The busy interval of that feed, and the slots of that Saturday.\<close>

definition saturday_busy :: "interval list" where
  "saturday_busy = [(at_cest 2024 6 1 10 0, at_cest 2024 6 1 11 0)]"

definition saturday_slots :: "string list" where
  "saturday_slots =
     [''2024-06-01T11:00:00+02:00'', ''2024-06-01T11:30:00+02:00'',
      ''2024-06-01T12:00:00+02:00'', ''2024-06-01T12:30:00+02:00'',
      ''2024-06-01T13:00:00+02:00'', ''2024-06-01T13:30:00+02:00'']"

text \<open>No feed URL in the environment.\<close>

definition unconfigured_world :: world where
  "unconfigured_world =
     \<lparr>environ = Map.empty,
      ics_importable = True,
      requests_get = (\<lambda>url. Inl RequestException),
      Calendar = (\<lambda>txt. Inl CalendarParseError),
      pytz_timezone = zone_database\<rparr>"

text \<open>A feed URL that is set, and whose server answers 503.\<close>

definition failing_feed_world :: world where
  "failing_feed_world =
     \<lparr>environ = [''GOOGLE_CALENDAR_ICAL_URL'' \<mapsto> feed_url],
      ics_importable = True,
      requests_get = (\<lambda>url. Inr \<lparr>status_code = 503, resp_text = []\<rparr>),
      Calendar = (\<lambda>txt. Inl CalendarParseError),
      pytz_timezone = zone_database\<rparr>"

text \<open>A feed URL that is set to one space.\<close>

definition blank_url_world :: world where
  "blank_url_world =
     \<lparr>environ = [''GOOGLE_CALENDAR_ICAL_URL'' \<mapsto> '' ''],
      ics_importable = True,
      requests_get = (\<lambda>url. Inl RequestException),
      Calendar = (\<lambda>txt. Inl CalendarParseError),
      pytz_timezone = zone_database\<rparr>"

text \<open>A zone name that pytz does not know, beside a feed that works.\<close>

definition unknown_zone_world :: world where
  "unknown_zone_world =
     \<lparr>environ = [''GOOGLE_CALENDAR_ICAL_URL'' \<mapsto> feed_url, ''BUSINESS_TZ'' \<mapsto> ''Nope/Zone''],
      ics_importable = True,
      requests_get = (\<lambda>url. Inr \<lparr>status_code = 200, resp_text = ''BEGIN:VCALENDAR''\<rparr>),
      Calendar = (\<lambda>txt. Inr [saturday_event]),
      pytz_timezone = zone_database\<rparr>"

text \<open>The zone UTC, and a feed that works and has no events.\<close>

definition utc_world :: world where
  "utc_world =
     \<lparr>environ = [''GOOGLE_CALENDAR_ICAL_URL'' \<mapsto> feed_url, ''BUSINESS_TZ'' \<mapsto> ''UTC''],
      ics_importable = True,
      requests_get = (\<lambda>url. Inr \<lparr>status_code = 200, resp_text = ''BEGIN:VCALENDAR''\<rparr>),
      Calendar = (\<lambda>txt. Inr []),
      pytz_timezone = zone_database\<rparr>"

text \<open>
  A feed with one well-formed event in the last half hour of the calendar, 23:30 to 23:45
  UTC on 9999-12-31.
\<close>

definition last_evening_event :: event where
  "last_evening_event =
     \<lparr>begin_datetime = Inr (Aware \<lparr>wall = wall_at 9999 12 31 23 30, utcoffset = 0\<rparr>),
      end_datetime = Some (Inr (Aware \<lparr>wall = wall_at 9999 12 31 23 45, utcoffset = 0\<rparr>))\<rparr>"

definition last_evening_world :: world where
  "last_evening_world =
     \<lparr>environ = [''GOOGLE_CALENDAR_ICAL_URL'' \<mapsto> feed_url],
      ics_importable = True,
      requests_get = (\<lambda>url. Inr \<lparr>status_code = 200, resp_text = ''BEGIN:VCALENDAR''\<rparr>),
      Calendar = (\<lambda>txt. Inr [last_evening_event]),
      pytz_timezone = zone_database\<rparr>"

text \<open>A feed whose first event cannot be read, followed by the event of the Saturday.\<close>

definition mixed_feed_world :: world where
  "mixed_feed_world =
     \<lparr>environ = [''GOOGLE_CALENDAR_ICAL_URL'' \<mapsto> feed_url],
      ics_importable = True,
      requests_get = (\<lambda>url. Inr \<lparr>status_code = 200, resp_text = ''BEGIN:VCALENDAR''\<rparr>),
      Calendar = (\<lambda>txt. Inr [unparsable_event, saturday_event]),
      pytz_timezone = zone_database\<rparr>"

text \<open>Two overlapping events and a later one, out of order.\<close>

definition overlapping_busy :: "interval list" where
  "overlapping_busy =
     [(at_cest 2024 6 5 13 0, at_cest 2024 6 5 13 30),
      (at_cest 2024 6 5 9 30, at_cest 2024 6 5 10 30),
      (at_cest 2024 6 5 9 0, at_cest 2024 6 5 10 0)]"

section \<open>Properties\<close>

subsection \<open>The merge of the busy intervals\<close>

lemma merge_step_cases:
  "merge_step merged (s, e) =
     (if merged = [] \<or> instant (snd (last merged)) < instant s then merged @ [(s, e)]
      else butlast merged @ [(fst (last merged), dt_max (snd (last merged)) e)])"
  by (simp add: merge_step_def dt_gt_def)

lemma merge_step_apart:
  assumes "successively apart merged"
  shows "successively apart (merge_step merged x)"
proof (cases x)
  case (Pair s e)
  show ?thesis
  proof (cases "merged = [] \<or> instant (snd (last merged)) < instant s")
    case True
    with assms Pair show ?thesis
      by (auto simp: merge_step_cases successively_append_iff apart_def)
  next
    case False
    then have "merged = butlast merged @ [last merged]" by simp
    then have "successively apart (butlast merged @ [last merged])"
      using assms by simp
    then have "successively apart
        (butlast merged @ [(fst (last merged), dt_max (snd (last merged)) e)])"
      by (auto simp: successively_append_iff apart_def)
    with False Pair show ?thesis
      by (simp add: merge_step_cases)
  qed
qed

lemma foldl_merge_step_apart:
  "successively apart acc \<Longrightarrow> successively apart (foldl merge_step acc xs)"
  by (induction xs arbitrary: acc) (simp_all add: merge_step_apart)

lemma merge_busy_apart: "successively apart (merge_busy busy)"
  by (simp add: merge_busy_def foldl_merge_step_apart)

text \<open>A step keeps the starts of the merged list, or appends the start it reads.\<close>

lemma merge_step_keys:
  "map start_key (merge_step merged x) = map start_key merged
   \<or> map start_key (merge_step merged x) = map start_key merged @ [start_key x]"
proof (cases x)
  case (Pair s e)
  show ?thesis
  proof (cases "merged = [] \<or> instant (snd (last merged)) < instant s")
    case True
    with Pair show ?thesis by (simp add: merge_step_cases)
  next
    case False
    then have ne: "merged \<noteq> []" by simp
    have "map start_key (butlast merged @ [(fst (last merged), dt_max (snd (last merged)) e)])
          = map start_key (butlast merged @ [last merged])"
      by (simp add: start_key_def)
    also have "\<dots> = map start_key merged" using ne by simp
    finally show ?thesis using False Pair by (simp add: merge_step_cases)
  qed
qed

lemma foldl_merge_step_sorted:
  "sorted (map start_key acc @ map start_key xs)
   \<Longrightarrow> sorted (map start_key (foldl merge_step acc xs))"
proof (induction xs arbitrary: acc)
  case Nil
  then show ?case by simp
next
  case (Cons x xs)
  from merge_step_keys [of acc x]
  have "sorted (map start_key (merge_step acc x) @ map start_key xs)"
  proof
    assume "map start_key (merge_step acc x) = map start_key acc"
    with Cons.prems show ?thesis by (auto simp: sorted_append)
  next
    assume "map start_key (merge_step acc x) = map start_key acc @ [start_key x]"
    with Cons.prems show ?thesis by simp
  qed
  then show ?case using Cons.IH by simp
qed

lemma merge_busy_sorted: "sorted (map start_key (merge_busy busy))"
proof -
  have "sorted (map start_key (sort_key start_key busy))" by simp
  then have "sorted (map start_key (foldl merge_step [] (sort_key start_key busy)))"
    using foldl_merge_step_sorted [of "[]"] by simp
  then show ?thesis
    by (simp add: merge_busy_def start_key_def [abs_def])
qed

text \<open>Every merged interval is proper when every interval read is proper.\<close>

lemma merge_step_proper:
  assumes "\<forall>y \<in> set merged. proper y" and "proper x"
  shows "\<forall>y \<in> set (merge_step merged x). proper y"
proof (cases x)
  case (Pair s e)
  show ?thesis
  proof (cases "merged = [] \<or> instant (snd (last merged)) < instant s")
    case True
    with assms Pair show ?thesis by (simp add: merge_step_cases)
  next
    case False
    then have ne: "merged \<noteq> []" by simp
    then have "last merged \<in> set merged" by simp
    with assms(1) have l: "instant (fst (last merged)) < instant (snd (last merged))"
      by (simp add: proper_def)
    have "instant (snd (last merged)) \<le> instant (dt_max (snd (last merged)) e)"
      by (simp add: dt_max_def dt_gt_def)
    with l have new: "proper (fst (last merged), dt_max (snd (last merged)) e)"
      by (simp add: proper_def)
    have "\<forall>y \<in> set (butlast merged). proper y"
      using assms(1) by (blast dest: in_set_butlastD)
    with new have "\<forall>y \<in> set (butlast merged @ [(fst (last merged), dt_max (snd (last merged)) e)]).
        proper y"
      by simp
    with False Pair show ?thesis by (simp add: merge_step_cases)
  qed
qed

lemma foldl_merge_step_proper:
  "\<forall>y \<in> set acc. proper y \<Longrightarrow> \<forall>y \<in> set xs. proper y
   \<Longrightarrow> \<forall>y \<in> set (foldl merge_step acc xs). proper y"
proof (induction xs arbitrary: acc)
  case Nil
  then show ?case by simp
next
  case (Cons x xs)
  from Cons.prems(2) have "proper x" by simp
  with Cons.prems(1) have "\<forall>y \<in> set (merge_step acc x). proper y"
    by (rule merge_step_proper)
  moreover from Cons.prems(2) have "\<forall>y \<in> set xs. proper y" by simp
  ultimately have "\<forall>y \<in> set (foldl merge_step (merge_step acc x) xs). proper y"
    by (rule Cons.IH)
  then show ?case by simp
qed

lemma merge_busy_proper:
  assumes "\<forall>y \<in> set busy. proper y"
  shows "\<forall>y \<in> set (merge_busy busy). proper y"
proof -
  have "\<forall>y \<in> set []. proper y" by simp
  moreover have "\<forall>y \<in> set (sort_key (\<lambda>x. instant (fst x)) busy). proper y"
    using assms by simp
  ultimately show ?thesis
    unfolding merge_busy_def by (rule foldl_merge_step_proper)
qed

text \<open>The pass leaves a list alone whose neighbours are already apart.\<close>

lemma foldl_merge_step_id:
  "successively apart (acc @ xs) \<Longrightarrow> foldl merge_step acc xs = acc @ xs"
proof (induction xs arbitrary: acc)
  case Nil
  then show ?case by simp
next
  case (Cons x xs)
  obtain s e where x: "x = (s, e)" by (cases x)
  have "acc = [] \<or> instant (snd (last acc)) < instant s"
    using Cons.prems x by (auto simp: successively_append_iff apart_def)
  then have step: "merge_step acc x = acc @ [x]"
    using x by (auto simp: merge_step_cases)
  have "successively apart ((acc @ [x]) @ xs)" using Cons.prems by simp
  then have "foldl merge_step (acc @ [x]) xs = (acc @ [x]) @ xs" by (rule Cons.IH)
  then show ?case using step by simp
qed

text \<open>
  Claim C2. For every list of busy intervals that each start strictly before they end, the
  merge step returns a list sorted ascending by start in which every interval ends
  strictly before the next one starts, so that no two of its intervals overlap or touch;
  the same then holds of any two intervals of the output, not only of neighbours.
\<close>

theorem merge_busy_sorted_and_apart:
  assumes "\<forall>x \<in> set busy. instant (fst x) < instant (snd x)"
  shows "sorted (map (\<lambda>x. instant (fst x)) (merge_busy busy))
       \<and> (\<forall>i. Suc i < length (merge_busy busy)
              \<longrightarrow> instant (snd (merge_busy busy ! i)) < instant (fst (merge_busy busy ! Suc i)))
       \<and> (\<forall>i j. i < j \<and> j < length (merge_busy busy)
              \<longrightarrow> instant (snd (merge_busy busy ! i)) < instant (fst (merge_busy busy ! j)))"
proof -
  let ?m = "merge_busy busy"
  have srt: "sorted (map (\<lambda>x. instant (fst x)) ?m)"
    using merge_busy_sorted [of busy] by (simp add: start_key_def [abs_def])
  have adj: "\<And>i. Suc i < length ?m \<Longrightarrow> instant (snd (?m ! i)) < instant (fst (?m ! Suc i))"
    using merge_busy_apart [of busy] by (simp add: successively_conv_nth apart_def)
  have "\<forall>y \<in> set busy. proper y" using assms by (simp add: proper_def)
  then have "\<forall>y \<in> set ?m. proper y" by (rule merge_busy_proper)
  then have ne: "\<And>k. k < length ?m \<Longrightarrow> instant (fst (?m ! k)) < instant (snd (?m ! k))"
    by (simp add: proper_def)
  have far: "i < j \<Longrightarrow> j < length ?m \<Longrightarrow> instant (snd (?m ! i)) < instant (fst (?m ! j))"
    for i j
  proof (induction j)
    case 0
    then show ?case by simp
  next
    case (Suc j)
    show ?case
    proof (cases "i = j")
      case True
      with Suc.prems adj show ?thesis by simp
    next
      case False
      with Suc.prems have "i < j" "j < length ?m" by simp_all
      then have "instant (snd (?m ! i)) < instant (fst (?m ! j))" by (rule Suc.IH)
      also have "\<dots> < instant (snd (?m ! j))" using \<open>j < length ?m\<close> by (rule ne)
      also have "\<dots> < instant (fst (?m ! Suc j))" using Suc.prems(2) by (rule adj)
      finally show ?thesis .
    qed
  qed
  from srt adj far show ?thesis by blast
qed

text \<open>
  The theorem at the three intervals 13:00 to 13:30, 09:30 to 10:30 and 09:00 to 10:00 of
  one Wednesday: the two that overlap become 09:00 to 10:30.
\<close>

theorem merge_busy_sorted_and_apart_witness:
  "list_all proper overlapping_busy
   \<and> merge_busy overlapping_busy =
         [(at_cest 2024 6 5 9 0, at_cest 2024 6 5 10 30),
          (at_cest 2024 6 5 13 0, at_cest 2024 6 5 13 30)]
   \<and> sorted (map (\<lambda>x. instant (fst x)) (merge_busy overlapping_busy))
   \<and> instant (snd (merge_busy overlapping_busy ! 0))
       < instant (fst (merge_busy overlapping_busy ! Suc 0))"
proof -
  have p: "list_all proper overlapping_busy"
    by code_simp
  then have h: "\<forall>x \<in> set overlapping_busy. instant (fst x) < instant (snd x)"
    by (simp add: list_all_iff proper_def)
  have m: "merge_busy overlapping_busy =
         [(at_cest 2024 6 5 9 0, at_cest 2024 6 5 10 30),
          (at_cest 2024 6 5 13 0, at_cest 2024 6 5 13 30)]"
    by code_simp
  have l: "Suc 0 < length (merge_busy overlapping_busy)" by (simp add: m)
  have c: "sorted (map (\<lambda>x. instant (fst x)) (merge_busy overlapping_busy))"
    "\<forall>i. Suc i < length (merge_busy overlapping_busy)
              \<longrightarrow> instant (snd (merge_busy overlapping_busy ! i))
                  < instant (fst (merge_busy overlapping_busy ! Suc i))"
    using merge_busy_sorted_and_apart [OF h] by blast+
  from c(2) l have "instant (snd (merge_busy overlapping_busy ! 0))
       < instant (fst (merge_busy overlapping_busy ! Suc 0))" by blast
  with p m c(1) show ?thesis by blast
qed

text \<open>
  Claim C8. The merge step is idempotent: merging the output of a merge returns that
  output unchanged, for every input list.
\<close>

theorem merge_busy_idempotent: "merge_busy (merge_busy busy) = merge_busy busy"
proof -
  let ?m = "merge_busy busy"
  have "sort_key start_key ?m = ?m"
    by (rule sort_key_id_if_sorted) (rule merge_busy_sorted)
  then have "merge_busy ?m = foldl merge_step [] ?m"
    by (simp add: merge_busy_def [of ?m] start_key_def [abs_def])
  also have "\<dots> = [] @ ?m"
    by (rule foldl_merge_step_id) (simp add: merge_busy_apart)
  finally show ?thesis by simp
qed

subsection \<open>The slot loop\<close>

lemma timedelta_minutes_value: "timedelta_minutes m = Inr d \<Longrightarrow> d = m * us_per_minute"
  by (simp add: timedelta_minutes_def split: if_splits)

lemma dt_add_Inr:
  "dt_add a delta = Inr b \<Longrightarrow> wall b = wall a + delta \<and> utcoffset b = utcoffset a"
  by (auto simp: dt_add_def naive_add_def Let_def split: if_splits)

lemma dt_add_instant: "dt_add a delta = Inr b \<Longrightarrow> instant b = instant a + delta"
  by (auto simp: instant_def dest: dt_add_Inr)

lemma slot_loop_raise:
  "dt_add cur delta = Inl err \<Longrightarrow> slot_loop busy delta end_t cur sl = Some (Inl err)"
  by (subst slot_loop.simps) simp

lemma slot_loop_stop:
  "dt_add cur delta = Inr e \<Longrightarrow> \<not> dt_le e end_t
   \<Longrightarrow> slot_loop busy delta end_t cur sl = Some (Inr sl)"
  by (subst slot_loop.simps) simp

lemma slot_loop_step:
  "dt_add cur delta = Inr e \<Longrightarrow> dt_le e end_t
   \<Longrightarrow> slot_loop busy delta end_t cur sl
       = slot_loop busy delta end_t e (if is_free busy cur e then sl @ [isoformat cur] else sl)"
  by (subst slot_loop.simps) simp

lemma slot_loop_progress:
  assumes "0 < delta" and "dt_add cur delta = Inr e" and "dt_le e end_t"
  shows "nat (instant end_t - instant e) < nat (instant end_t - instant cur)"
proof -
  have "instant e = instant cur + delta" using assms(2) by (rule dt_add_instant)
  moreover have "instant e \<le> instant end_t" using assms(3) by (simp add: dt_le_def)
  ultimately show ?thesis using assms(1) by linarith
qed

lemma slot_loop_returns:
  assumes "0 < delta"
  shows "\<exists>r. slot_loop busy delta end_t cur sl = Some r"
proof (induction "nat (instant end_t - instant cur)" arbitrary: cur sl rule: less_induct)
  case less
  show ?case
  proof (cases "dt_add cur delta")
    case (Inl err)
    then show ?thesis by (simp add: slot_loop_raise)
  next
    case (Inr e)
    show ?thesis
    proof (cases "dt_le e end_t")
      case False
      with Inr show ?thesis by (simp add: slot_loop_stop)
    next
      case True
      have "nat (instant end_t - instant e) < nat (instant end_t - instant cur)"
        using assms Inr True by (rule slot_loop_progress)
      then have "\<exists>r. slot_loop busy delta end_t e
                   (if is_free busy cur e then sl @ [isoformat cur] else sl) = Some r"
        by (rule less)
      then show ?thesis using Inr True by (simp add: slot_loop_step)
    qed
  qed
qed

lemma is_free_iff:
  "is_free busy s e
   \<longleftrightarrow> (\<forall>(b_start, b_end) \<in> set busy. \<not> (dt_lt s b_end \<and> dt_gt e b_start))"
  by (induction busy s e rule: is_free.induct) auto

lemma slot_loop_fits:
  assumes "0 < delta"
  shows "slot_loop busy delta close_t cur sl = Some (Inr out)
         \<Longrightarrow> dt_le open_t cur
         \<Longrightarrow> \<forall>x \<in> set sl. fits busy delta open_t close_t x
         \<Longrightarrow> \<forall>x \<in> set out. fits busy delta open_t close_t x"
proof (induction "nat (instant close_t - instant cur)" arbitrary: cur sl rule: less_induct)
  case less
  show ?case
  proof (cases "dt_add cur delta")
    case (Inl err)
    with less.prems(1) show ?thesis by (simp add: slot_loop_raise)
  next
    case (Inr e)
    show ?thesis
    proof (cases "dt_le e close_t")
      case False
      with Inr less.prems(1) have "out = sl" by (simp add: slot_loop_stop)
      with less.prems(3) show ?thesis by simp
    next
      case True
      let ?nxt = "if is_free busy cur e then sl @ [isoformat cur] else sl"
      have m: "nat (instant close_t - instant e) < nat (instant close_t - instant cur)"
        using assms Inr True by (rule slot_loop_progress)
      have run: "slot_loop busy delta close_t e ?nxt = Some (Inr out)"
        using less.prems(1) Inr True by (simp add: slot_loop_step)
      have "instant e = instant cur + delta" using Inr by (rule dt_add_instant)
      then have le: "dt_le open_t e"
        using less.prems(2) assms by (simp add: dt_le_def)
      have "fits busy delta open_t close_t (isoformat cur)" if "is_free busy cur e"
        using that Inr True less.prems(2) by (auto simp: fits_def)
      then have acc: "\<forall>x \<in> set ?nxt. fits busy delta open_t close_t x"
        using less.prems(3) by auto
      show ?thesis by (rule less.hyps [OF m run le acc])
    qed
  qed
qed

text \<open>The loop on the Saturday of the examples, with the busy interval 10:00 to 11:00.\<close>

lemma saturday_loop:
  "slot_loop saturday_busy (30 * us_per_minute) (at_cest 2024 6 1 14 0) (at_cest 2024 6 1 10 0) []
     = Some (Inr saturday_slots)"
  by code_simp

text \<open>With a positive step the loop returns, and so does \<^verbatim>\<open>generate_slots\<close>.\<close>

lemma slot_loop_not_None:
  assumes "0 < m" and "timedelta_minutes m = Inr d"
  shows "slot_loop busy d end_t cur sl \<noteq> None"
proof -
  have "d = m * us_per_minute" using assms(2) by (rule timedelta_minutes_value)
  with assms(1) have "0 < d" by (simp add: us_per_minute_def)
  then have "\<exists>r. slot_loop busy d end_t cur sl = Some r" by (rule slot_loop_returns)
  then show ?thesis by auto
qed

lemma generate_slots_returns:
  assumes "0 < slot_mins"
  shows "\<exists>r. generate_slots w date_str slot_mins = Some r"
proof (cases "generate_slots w date_str slot_mins")
  case (Some r)
  then show ?thesis by blast
next
  case None
  then obtain busy d end_t start where "timedelta_minutes slot_mins = Inr d"
      and "slot_loop busy d end_t start [] = None"
    by (auto simp: generate_slots_def Let_def split: sum.splits option.splits prod.splits)
  with assms slot_loop_not_None show ?thesis by blast
qed

text \<open>
  Claim C10. For every window and every positive \<^verbatim>\<open>slot_minutes\<close> the slot loop
  terminates, whatever the cursor and the slots collected so far: it returns a list of
  slots or raises. At every iteration the distance from the cursor to the close of the
  window stays non-negative and decreases by exactly \<^verbatim>\<open>slot_minutes\<close>. Hence
  \<^verbatim>\<open>generate_slots\<close> returns or raises on every request with a positive
  \<^verbatim>\<open>slot_minutes\<close>. The step of the loop is \<open>slot_mins * us_per_minute\<close>, the value
  of \<^verbatim>\<open>timedelta(minutes=slot_minutes)\<close>.
\<close>

theorem slot_loop_terminates:
  assumes "0 < slot_mins"
  shows "(\<exists>r. slot_loop busy (slot_mins * us_per_minute) close_t cur sl = Some r)
       \<and> (\<forall>e. dt_add cur (slot_mins * us_per_minute) = Inr e \<and> dt_le e close_t \<longrightarrow>
              instant close_t - instant e
                = instant close_t - instant cur - slot_mins * us_per_minute
            \<and> 0 \<le> instant close_t - instant e
            \<and> instant close_t - instant e < instant close_t - instant cur)
       \<and> (\<exists>r. generate_slots w date_str slot_mins = Some r)"
proof -
  let ?delta = "slot_mins * us_per_minute"
  have pos: "0 < ?delta" using assms by (simp add: us_per_minute_def)
  have ret: "\<exists>r. slot_loop busy ?delta close_t cur sl = Some r"
    using pos by (rule slot_loop_returns)
  have prog: "instant close_t - instant e = instant close_t - instant cur - ?delta
            \<and> 0 \<le> instant close_t - instant e
            \<and> instant close_t - instant e < instant close_t - instant cur"
    if "dt_add cur ?delta = Inr e \<and> dt_le e close_t" for e
  proof -
    have "instant e = instant cur + ?delta" using that by (simp add: dt_add_instant)
    moreover have "instant e \<le> instant close_t" using that by (simp add: dt_le_def)
    ultimately show ?thesis using pos by linarith
  qed
  have gen: "\<exists>r. generate_slots w date_str slot_mins = Some r"
    using assms by (rule generate_slots_returns)
  from ret prog gen show ?thesis by blast
qed

text \<open>The theorem at 30 minutes on the Saturday of the examples.\<close>

theorem slot_loop_terminates_witness:
  "(0::int) < 30
   \<and> (\<exists>r. slot_loop saturday_busy (30 * us_per_minute) (at_cest 2024 6 1 14 0)
         (at_cest 2024 6 1 10 0) [] = Some r)
   \<and> dt_add (at_cest 2024 6 1 10 0) (30 * us_per_minute) = Inr (at_cest 2024 6 1 10 30)
   \<and> dt_le (at_cest 2024 6 1 10 30) (at_cest 2024 6 1 14 0)
   \<and> instant (at_cest 2024 6 1 14 0) - instant (at_cest 2024 6 1 10 30)
       = instant (at_cest 2024 6 1 14 0) - instant (at_cest 2024 6 1 10 0) - 30 * us_per_minute
   \<and> instant (at_cest 2024 6 1 14 0) - instant (at_cest 2024 6 1 10 30)
       < instant (at_cest 2024 6 1 14 0) - instant (at_cest 2024 6 1 10 0)
   \<and> (\<exists>r. generate_slots saturday_world ''2024-06-01'' 30 = Some r)"
proof -
  have pos: "(0::int) < 30" by simp
  have add: "dt_add (at_cest 2024 6 1 10 0) (30 * us_per_minute) = Inr (at_cest 2024 6 1 10 30)"
    by code_simp
  have le: "dt_le (at_cest 2024 6 1 10 30) (at_cest 2024 6 1 14 0)"
    by code_simp
  from slot_loop_terminates [OF pos, of saturday_busy "at_cest 2024 6 1 14 0"
      "at_cest 2024 6 1 10 0" "[]" saturday_world "''2024-06-01''"] pos add le
  show ?thesis by blast
qed

text \<open>
  Claim C1. For every window from \<open>open_t\<close> to \<open>close_t\<close>, every list of busy
  intervals and every positive \<^verbatim>\<open>slot_minutes\<close>, every slot the loop emits is the
  rendering of a start \<open>s\<close> whose candidate ends at \<open>e = s + delta\<close>, exactly
  \<^verbatim>\<open>slot_minutes\<close> later, lies in the window (\<open>open_t \<le> s\<close> and \<open>e \<le> close_t\<close>),
  and overlaps no busy interval: \<open>s < b_end \<and> e > b_start\<close> is false for each of them.
\<close>

theorem emitted_slots_fit:
  assumes "0 < slot_mins"
    and "slot_loop busy (slot_mins * us_per_minute) close_t open_t [] = Some (Inr out)"
    and "x \<in> set out"
  shows "\<exists>s e. x = isoformat s \<and> dt_add s (slot_mins * us_per_minute) = Inr e
           \<and> instant e - instant s = slot_mins * us_per_minute
           \<and> instant open_t \<le> instant s \<and> instant e \<le> instant close_t
           \<and> (\<forall>(b_start, b_end) \<in> set busy. \<not> (dt_lt s b_end \<and> dt_gt e b_start))"
proof -
  let ?delta = "slot_mins * us_per_minute"
  have pos: "0 < ?delta" using assms(1) by (simp add: us_per_minute_def)
  have "\<forall>x \<in> set out. fits busy ?delta open_t close_t x"
    using pos assms(2) by (rule slot_loop_fits) (simp_all add: dt_le_def)
  with assms(3) have "fits busy ?delta open_t close_t x" by blast
  then obtain s e where se: "x = isoformat s" "dt_add s ?delta = Inr e" "dt_le open_t s"
      "dt_le e close_t" "is_free busy s e"
    unfolding fits_def by blast
  from se(2) have "instant e - instant s = ?delta" by (simp add: dt_add_instant)
  moreover from se(3,4) have "instant open_t \<le> instant s" "instant e \<le> instant close_t"
    by (simp_all add: dt_le_def)
  moreover from se(5)
  have "\<forall>(b_start, b_end) \<in> set busy. \<not> (dt_lt s b_end \<and> dt_gt e b_start)"
    by (simp add: is_free_iff)
  ultimately show ?thesis using se(1,2) by blast
qed

text \<open>The theorem at the slot 11:00 of the Saturday of the examples.\<close>

theorem emitted_slots_fit_witness:
  "(0::int) < 30
   \<and> slot_loop saturday_busy (30 * us_per_minute) (at_cest 2024 6 1 14 0)
         (at_cest 2024 6 1 10 0) [] = Some (Inr saturday_slots)
   \<and> ''2024-06-01T11:00:00+02:00'' \<in> set saturday_slots
   \<and> (\<exists>s e. ''2024-06-01T11:00:00+02:00'' = isoformat s
           \<and> dt_add s (30 * us_per_minute) = Inr e
           \<and> instant e - instant s = 30 * us_per_minute
           \<and> instant (at_cest 2024 6 1 10 0) \<le> instant s
           \<and> instant e \<le> instant (at_cest 2024 6 1 14 0)
           \<and> (\<forall>(b_start, b_end) \<in> set saturday_busy. \<not> (dt_lt s b_end \<and> dt_gt e b_start)))"
proof -
  have pos: "(0::int) < 30" by simp
  note run = saturday_loop
  have mem: "''2024-06-01T11:00:00+02:00'' \<in> set saturday_slots"
    by (simp add: saturday_slots_def)
  from emitted_slots_fit [OF pos run mem] pos run mem show ?thesis by blast
qed

subsection \<open>Business hours\<close>

lemma weekday_range: "0 \<le> weekday day \<and> weekday day \<le> 6"
  by (simp add: weekday_def)

lemma weekday_next_day: "weekday (day + us_per_day) = (weekday day + 1) mod 7"
proof -
  have "(day + us_per_day) div us_per_day = day div us_per_day + 1"
    by (simp add: us_per_day_def)
  then have "weekday (day + us_per_day) = (day div us_per_day + 1 + 6) mod 7"
    by (simp add: weekday_def toordinal_def)
  also have "\<dots> = ((day div us_per_day + 6) mod 7 + 1) mod 7"
    by presburger
  finally show ?thesis by (simp add: weekday_def toordinal_def)
qed

text \<open>
  Claim C7. For every date, the business hours are 09:00 to 18:00 when its weekday is
  Monday to Friday (0 to 4), 10:00 to 14:00 when it is Saturday (5), and there are none
  when it is Sunday (6); a weekday is always one of these seven.
\<close>

theorem business_hours_by_weekday:
  "(weekday day \<in> {0, 1, 2, 3, 4} \<longrightarrow> get_business_hours day = Some (Time 9 0, Time 18 0))
   \<and> (weekday day = 5 \<longrightarrow> get_business_hours day = Some (Time 10 0, Time 14 0))
   \<and> (weekday day = 6 \<longrightarrow> get_business_hours day = None)
   \<and> weekday day \<in> {0, 1, 2, 3, 4, 5, 6}"
proof -
  have "0 \<le> weekday day \<and> weekday day \<le> 6" by (rule weekday_range)
  then have "weekday day \<in> {0, 1, 2, 3, 4, 5, 6}" by auto
  then show ?thesis by (auto simp: get_business_hours_def)
qed

text \<open>The theorem on a Monday, a Friday, a Saturday and a Sunday of June 2024.\<close>

theorem business_hours_by_weekday_witness:
  "weekday (wall_at 2024 6 3 0 0) = 0
     \<and> get_business_hours (wall_at 2024 6 3 0 0) = Some (Time 9 0, Time 18 0)
   \<and> weekday (wall_at 2024 6 7 0 0) = 4
     \<and> get_business_hours (wall_at 2024 6 7 0 0) = Some (Time 9 0, Time 18 0)
   \<and> weekday (wall_at 2024 6 1 0 0) = 5
     \<and> get_business_hours (wall_at 2024 6 1 0 0) = Some (Time 10 0, Time 14 0)
   \<and> weekday (wall_at 2024 6 2 0 0) = 6
     \<and> get_business_hours (wall_at 2024 6 2 0 0) = None"
proof -
  have w: "weekday (wall_at 2024 6 3 0 0) = 0" "weekday (wall_at 2024 6 7 0 0) = 4"
          "weekday (wall_at 2024 6 1 0 0) = 5" "weekday (wall_at 2024 6 2 0 0) = 6"
    by code_simp+
  show ?thesis
    using w business_hours_by_weekday [of "wall_at 2024 6 3 0 0"]
      business_hours_by_weekday [of "wall_at 2024 6 7 0 0"]
      business_hours_by_weekday [of "wall_at 2024 6 1 0 0"]
      business_hours_by_weekday [of "wall_at 2024 6 2 0 0"]
    by simp
qed

subsection \<open>Closed days\<close>

lemma sunday_parse: "strptime ''2024-06-02'' = Inr (wall_at 2024 6 2 0 0)"
  by code_simp

lemma sunday_weekday: "weekday (wall_at 2024 6 2 0 0) = 6"
  by code_simp

text \<open>
  Claim C6 says that on every closed day the pipeline returns an empty slot list. The
  zone is looked up at line 157, before the date is parsed and the weekday is tested:
  with a \<^verbatim>\<open>BUSINESS_TZ\<close> that pytz does not know, a request for Sunday 2024-06-02
  raises \<^verbatim>\<open>UnknownTimeZoneError\<close> and returns no slot list, empty or not.
\<close>

theorem closed_day_raises_on_unknown_zone:
  "strptime ''2024-06-02'' = Inr (wall_at 2024 6 2 0 0)
   \<and> get_business_hours (wall_at 2024 6 2 0 0) = None
   \<and> getenv unknown_zone_world ''BUSINESS_TZ'' = Some ''Nope/Zone''
   \<and> generate_slots unknown_zone_world ''2024-06-02'' 30 = Some ([], Inl UnknownTimeZoneError)"
  by code_simp

text \<open>
  Claim C6, amended. For every date whose weekday is Sunday the business hours are
  \<open>None\<close>, and in every environment the calendar is not fetched: no URL is requested
  (the first component is empty) and the outcome is the same whatever the \<^verbatim>\<open>ics\<close>
  import, the HTTP client and the calendar parser would have answered. When the zone
  name of the environment is one pytz knows, the outcome is the response with an empty
  slot list; when it is not, the outcome is the error of the zone lookup.
\<close>

theorem closed_day_short_circuits:
  assumes "strptime date_str = Inr date_local" and "weekday date_local = 6"
  shows "get_business_hours date_local = None
       \<and> (\<forall>tz. pytz_timezone w (getenv_default w ''BUSINESS_TZ'' ''Europe/Amsterdam'') = Inr tz
            \<longrightarrow> generate_slots w date_str slot_mins =
                  Some ([], Inr \<lparr>date = date_str,
                                 timezone = getenv_default w ''BUSINESS_TZ'' ''Europe/Amsterdam'',
                                 slot_minutes = slot_mins, slots = [],
                                 configured = env_truthy w ''GOOGLE_CALENDAR_ICAL_URL''\<rparr>))
       \<and> (\<forall>err. pytz_timezone w (getenv_default w ''BUSINESS_TZ'' ''Europe/Amsterdam'') = Inl err
            \<longrightarrow> generate_slots w date_str slot_mins = Some ([], Inl err))
       \<and> (\<exists>res. generate_slots w date_str slot_mins = Some ([], res))
       \<and> generate_slots (w\<lparr>ics_importable := imp, requests_get := get, Calendar := cal\<rparr>)
             date_str slot_mins
           = generate_slots w date_str slot_mins"
proof -
  let ?name = "\<lambda>v. getenv_default v ''BUSINESS_TZ'' ''Europe/Amsterdam''"
  let ?w' = "w\<lparr>ics_importable := imp, requests_get := get, Calendar := cal\<rparr>"
  have closed: "get_business_hours date_local = None"
    using assms(2) by (simp add: get_business_hours_def)
  have known: "generate_slots v date_str slot_mins =
           Some ([], Inr \<lparr>date = date_str, timezone = ?name v,
                          slot_minutes = slot_mins, slots = [],
                          configured = env_truthy v ''GOOGLE_CALENDAR_ICAL_URL''\<rparr>)"
    if "pytz_timezone v (?name v) = Inr tz" for v tz
    using that assms(1) closed by (simp add: generate_slots_def Let_def)
  have unknown: "generate_slots v date_str slot_mins = Some ([], Inl err)"
    if "pytz_timezone v (?name v) = Inl err" for v err
    using that by (simp add: generate_slots_def Let_def)
  have same: "?name ?w' = ?name w"
    "env_truthy ?w' ''GOOGLE_CALENDAR_ICAL_URL'' = env_truthy w ''GOOGLE_CALENDAR_ICAL_URL''"
    "pytz_timezone ?w' = pytz_timezone w"
    by (simp_all add: getenv_default_def env_truthy_def getenv_def)
  have none: "\<exists>res. generate_slots w date_str slot_mins = Some ([], res)"
    using known [of w] unknown [of w]
    by (cases "pytz_timezone w (?name w)") auto
  have inv: "generate_slots ?w' date_str slot_mins = generate_slots w date_str slot_mins"
  proof (cases "pytz_timezone w (?name w)")
    case (Inl err)
    with unknown [of w err] unknown [of ?w' err] same show ?thesis by simp
  next
    case (Inr tz)
    with known [of w tz] known [of ?w' tz] same show ?thesis by simp
  qed
  from closed known [of w] unknown [of w] none inv show ?thesis by blast
qed

text \<open>
  The theorem on Sunday 2024-06-02: in an environment whose feed is configured and would
  have answered, and in one whose zone name is unknown.
\<close>

theorem closed_day_short_circuits_witness:
  "strptime ''2024-06-02'' = Inr (wall_at 2024 6 2 0 0)
   \<and> weekday (wall_at 2024 6 2 0 0) = 6
   \<and> pytz_timezone saturday_world (getenv_default saturday_world ''BUSINESS_TZ'' ''Europe/Amsterdam'')
       = Inr cest
   \<and> generate_slots saturday_world ''2024-06-02'' 30 =
        Some ([], Inr \<lparr>date = ''2024-06-02'', timezone = ''Europe/Amsterdam'',
                       slot_minutes = 30, slots = [], configured = True\<rparr>)
   \<and> pytz_timezone unknown_zone_world
         (getenv_default unknown_zone_world ''BUSINESS_TZ'' ''Europe/Amsterdam'')
       = Inl UnknownTimeZoneError
   \<and> generate_slots unknown_zone_world ''2024-06-02'' 30 = Some ([], Inl UnknownTimeZoneError)"
proof -
  have e: "getenv_default saturday_world ''BUSINESS_TZ'' ''Europe/Amsterdam'' = ''Europe/Amsterdam''"
    "env_truthy saturday_world ''GOOGLE_CALENDAR_ICAL_URL'' = True"
    by code_simp+
  have z: "pytz_timezone saturday_world
      (getenv_default saturday_world ''BUSINESS_TZ'' ''Europe/Amsterdam'') = Inr cest"
    by (simp add: saturday_world_def zone_database_def getenv_default_def)
  have u: "pytz_timezone unknown_zone_world
         (getenv_default unknown_zone_world ''BUSINESS_TZ'' ''Europe/Amsterdam'')
       = Inl UnknownTimeZoneError"
    by (simp add: unknown_zone_world_def zone_database_def getenv_default_def)
  have one: "generate_slots saturday_world ''2024-06-02'' 30 =
        Some ([], Inr \<lparr>date = ''2024-06-02'', timezone = ''Europe/Amsterdam'',
                       slot_minutes = 30, slots = [], configured = True\<rparr>)"
    using closed_day_short_circuits [OF sunday_parse sunday_weekday, of saturday_world 30] z e
    by simp
  have two: "generate_slots unknown_zone_world ''2024-06-02'' 30
      = Some ([], Inl UnknownTimeZoneError)"
    using closed_day_short_circuits [OF sunday_parse sunday_weekday, of unknown_zone_world 30] u
    by blast
  from sunday_parse sunday_weekday z one u two show ?thesis by blast
qed

subsection \<open>The fetcher\<close>

lemma event_loop_skip:
  "event_fields ev = None
   \<Longrightarrow> event_loop tz sod eod (ev # evs) busy = event_loop tz sod eod evs busy"
  by simp

lemma event_loop_append:
  "event_loop tz sod eod (evs1 @ evs2) busy =
     (case event_loop tz sod eod evs1 busy of
        Inl err \<Rightarrow> Inl err
      | Inr busy' \<Rightarrow> event_loop tz sod eod evs2 busy')"
  by (induction evs1 arbitrary: busy)
     (simp_all add: Let_def split: option.splits prod.splits sum.splits)

lemma event_fields_unparsed:
  "(\<exists>err. begin_datetime ev = Inl err) \<or> (\<exists>err. end_datetime ev = Some (Inl err))
   \<Longrightarrow> event_fields ev = None"
  by (auto simp: event_fields_def split: sum.splits option.splits)

lemma event_loop_drops_unparsed:
  assumes "(\<exists>err. begin_datetime ev = Inl err) \<or> (\<exists>err. end_datetime ev = Some (Inl err))"
  shows "event_loop tz sod eod (evs1 @ ev # evs2) busy = event_loop tz sod eod (evs1 @ evs2) busy"
proof -
  from assms have "event_fields ev = None" by (rule event_fields_unparsed)
  then have skip: "event_loop tz sod eod (ev # evs2) b = event_loop tz sod eod evs2 b" for b
    by (rule event_loop_skip)
  show ?thesis
    by (cases "event_loop tz sod eod evs1 busy")
       (simp_all add: event_loop_append [of _ _ _ evs1] skip del: event_loop.simps)
qed

text \<open>
  What the \<^verbatim>\<open>try\<close> blocks of the fetcher achieve. In each failure mode they cover (the
  feed URL is missing or blank, the \<^verbatim>\<open>ics\<close> package cannot be imported, the HTTP
  request raises, the status is an error status, the feed cannot be parsed) the fetcher
  returns the empty list and does not raise.
\<close>

lemma fetch_failure_modes_give_empty:
  assumes "strip (getenv_default w ''GOOGLE_CALENDAR_ICAL_URL'' []) = []
      \<or> \<not> ics_importable w
      \<or> (\<exists>err. requests_get w (strip (getenv_default w ''GOOGLE_CALENDAR_ICAL_URL'' [])) = Inl err)
      \<or> (\<exists>resp. requests_get w (strip (getenv_default w ''GOOGLE_CALENDAR_ICAL_URL'' [])) = Inr resp
            \<and> 400 \<le> status_code resp \<and> status_code resp < 600)
      \<or> (\<exists>resp err. requests_get w (strip (getenv_default w ''GOOGLE_CALENDAR_ICAL_URL'' [])) = Inr resp
            \<and> Calendar w (resp_text resp) = Inl err)"
  shows "snd (fetch_busy_intervals_ical w date_local tz) = Inr []"
proof -
  let ?url = "strip (getenv_default w ''GOOGLE_CALENDAR_ICAL_URL'' [])"
  from assms consider (missing) "?url = []" | (import) "\<not> ics_importable w"
    | (transport) err where "requests_get w ?url = Inl err"
    | (status) resp where "requests_get w ?url = Inr resp" "400 \<le> status_code resp"
        "status_code resp < 600"
    | (parse) resp err where "requests_get w ?url = Inr resp" "Calendar w (resp_text resp) = Inl err"
    by blast
  then show ?thesis
  proof cases
    case missing
    then show ?thesis by (simp add: fetch_busy_intervals_ical_def)
  next
    case import
    then show ?thesis by (simp add: fetch_busy_intervals_ical_def Let_def)
  next
    case transport
    then show ?thesis by (simp add: fetch_busy_intervals_ical_def Let_def)
  next
    case status
    then show ?thesis
      by (simp add: fetch_busy_intervals_ical_def Let_def raise_for_status_def)
  next
    case parse
    then show ?thesis
      by (simp add: fetch_busy_intervals_ical_def Let_def split: sum.splits)
  qed
qed

text \<open>
  An event whose start or end cannot be read is skipped by the fetcher: the outcome is
  that of the feed without the event, whatever comes before and after it.
\<close>

lemma fetch_skips_unparsable_event:
  assumes "(\<exists>err. begin_datetime ev = Inl err) \<or> (\<exists>err. end_datetime ev = Some (Inl err))"
  shows "fetch_busy_intervals_ical (w\<lparr>Calendar := \<lambda>txt. Inr (evs1 @ ev # evs2)\<rparr>) date_local tz
       = fetch_busy_intervals_ical (w\<lparr>Calendar := \<lambda>txt. Inr (evs1 @ evs2)\<rparr>) date_local tz"
proof -
  have "event_loop tz sod eod (evs1 @ ev # evs2) [] = event_loop tz sod eod (evs1 @ evs2) []"
    for sod eod
    using assms by (rule event_loop_drops_unparsed)
  then show ?thesis
    by (simp add: fetch_busy_intervals_ical_def Let_def getenv_default_def
        del: event_loop.simps cong: sum.case_cong)
qed

text \<open>A feed whose first event cannot be read still gives the busy interval of its second.\<close>

lemma mixed_feed_fetch:
  "fetch_busy_intervals_ical mixed_feed_world (wall_at 2024 6 1 0 0) cest
     = ([feed_url], Inr saturday_busy)"
  by code_simp

lemma last_day_is_friday:
  "strptime ''9999-12-31'' = Inr (wall_at 9999 12 31 0 0) \<and> weekday (wall_at 9999 12 31 0 0) = 4"
  by code_simp

text \<open>
  Claim C3 says that the fetcher never raises to its caller. Two statements of the
  fetcher are outside every \<^verbatim>\<open>try\<close> block and raise \<^verbatim>\<open>OverflowError\<close>. For the
  date 9999-12-31, a Friday, in the zone UTC and with a feed that is fetched and parsed,
  \<^verbatim>\<open>start_of_day + timedelta(days=1)\<close> at line 115 leaves the calendar. For an
  ordinary date in the default zone, a feed with one well-formed event at 23:30 UTC on
  9999-12-31 makes \<^verbatim>\<open>ev_start.astimezone(tz)\<close> at line 130 leave the calendar. In both
  cases the exception leaves the fetcher, \<^verbatim>\<open>generate_slots\<close> and the route.
\<close>

theorem fetch_raises_outside_try:
  "fetch_busy_intervals_ical utc_world (wall_at 9999 12 31 0 0) utc
     = ([feed_url], Inl OverflowError)
   \<and> availability utc_world ''9999-12-31'' 30 = Some ([feed_url], Inl OverflowError)
   \<and> fetch_busy_intervals_ical last_evening_world (wall_at 2024 6 1 0 0) cest
       = ([feed_url], Inl OverflowError)
   \<and> availability last_evening_world ''2024-06-01'' 30 = Some ([feed_url], Inl OverflowError)"
proof -
  have a: "fetch_busy_intervals_ical utc_world (wall_at 9999 12 31 0 0) utc
     = ([feed_url], Inl OverflowError)"
    by code_simp
  have b: "availability utc_world ''9999-12-31'' 30 = Some ([feed_url], Inl OverflowError)"
    by code_simp
  have c: "fetch_busy_intervals_ical last_evening_world (wall_at 2024 6 1 0 0) cest
       = ([feed_url], Inl OverflowError)"
    by code_simp
  have d: "availability last_evening_world ''2024-06-01'' 30
      = Some ([feed_url], Inl OverflowError)"
    by code_simp
  from a b c d show ?thesis by blast
qed

subsection \<open>Slots next to a busy interval, and two requests the route accepts\<close>

lemma slot_loop_prefix:
  assumes "0 < delta"
  shows "slot_loop busy delta close_t cur sl = Some (Inr out) \<Longrightarrow> \<exists>rest. out = sl @ rest"
proof (induction "nat (instant close_t - instant cur)" arbitrary: cur sl rule: less_induct)
  case less
  show ?case
  proof (cases "dt_add cur delta")
    case (Inl err)
    with less.prems show ?thesis by (simp add: slot_loop_raise)
  next
    case (Inr e)
    show ?thesis
    proof (cases "dt_le e close_t")
      case False
      with Inr less.prems show ?thesis by (simp add: slot_loop_stop)
    next
      case True
      let ?nxt = "if is_free busy cur e then sl @ [isoformat cur] else sl"
      have m: "nat (instant close_t - instant e) < nat (instant close_t - instant cur)"
        using assms Inr True by (rule slot_loop_progress)
      have run: "slot_loop busy delta close_t e ?nxt = Some (Inr out)"
        using less.prems Inr True by (simp add: slot_loop_step)
      from less.hyps [OF m run] obtain rest where "out = ?nxt @ rest" by blast
      then show ?thesis by (cases "is_free busy cur e") auto
    qed
  qed
qed

lemma saturday_fetch:
  "fetch_busy_intervals_ical saturday_world (wall_at 2024 6 1 0 0) cest
     = ([feed_url], Inr saturday_busy)"
  by code_simp

lemma saturday_request:
  "generate_slots saturday_world ''2024-06-01'' 30 =
     Some ([feed_url],
       Inr \<lparr>date = ''2024-06-01'', timezone = ''Europe/Amsterdam'', slot_minutes = 30,
            slots = saturday_slots, configured = True\<rparr>)"
  by code_simp

text \<open>
  Claim C5. The overlap test is strict on both sides. A candidate that ends exactly when
  a busy interval starts, or starts exactly when a busy interval ends, passes
  \<^verbatim>\<open>is_free\<close> and is emitted by the loop when no other busy interval overlaps it. On
  Saturday 2024-06-01, with the one busy interval 10:00 to 11:00 in the feed and slots of
  30 minutes, \<^verbatim>\<open>generate_slots\<close> returns exactly the slots 11:00, 11:30, 12:00, 12:30,
  13:00 and 13:30: the candidates 10:00 and 10:30 are left out.
\<close>

theorem adjacent_slots_are_emitted:
  "(0 < delta \<and> dt_add cur delta = Inr e \<and> dt_le e close_t
      \<and> (b_start, b_end) \<in> set busy
      \<and> (instant e = instant b_start \<or> instant cur = instant b_end)
      \<and> (\<forall>b \<in> set busy. b \<noteq> (b_start, b_end) \<longrightarrow> \<not> (dt_lt cur (snd b) \<and> dt_gt e (fst b)))
      \<and> slot_loop busy delta close_t cur sl = Some (Inr out)
    \<longrightarrow> is_free busy cur e \<and> isoformat cur \<in> set out)
   \<and> weekday (wall_at 2024 6 1 0 0) = 5
   \<and> fetch_busy_intervals_ical saturday_world (wall_at 2024 6 1 0 0) cest
       = ([feed_url], Inr [(at_cest 2024 6 1 10 0, at_cest 2024 6 1 11 0)])
   \<and> generate_slots saturday_world ''2024-06-01'' 30 =
       Some ([feed_url],
         Inr \<lparr>date = ''2024-06-01'', timezone = ''Europe/Amsterdam'', slot_minutes = 30,
              slots = [''2024-06-01T11:00:00+02:00'', ''2024-06-01T11:30:00+02:00'',
                       ''2024-06-01T12:00:00+02:00'', ''2024-06-01T12:30:00+02:00'',
                       ''2024-06-01T13:00:00+02:00'', ''2024-06-01T13:30:00+02:00''],
              configured = True\<rparr>)"
proof (intro conjI impI)
  assume h: "0 < delta \<and> dt_add cur delta = Inr e \<and> dt_le e close_t
      \<and> (b_start, b_end) \<in> set busy
      \<and> (instant e = instant b_start \<or> instant cur = instant b_end)
      \<and> (\<forall>b \<in> set busy. b \<noteq> (b_start, b_end) \<longrightarrow> \<not> (dt_lt cur (snd b) \<and> dt_gt e (fst b)))
      \<and> slot_loop busy delta close_t cur sl = Some (Inr out)"
  have own: "\<not> (dt_lt cur b_end \<and> dt_gt e b_start)"
    using h by (auto simp: dt_lt_def dt_gt_def)
  have "\<not> (dt_lt cur (snd b) \<and> dt_gt e (fst b))" if "b \<in> set busy" for b
    using that h own by (cases "b = (b_start, b_end)") auto
  then show free: "is_free busy cur e"
    by (auto simp: is_free_iff)
  from h have a: "dt_add cur delta = Inr e" and l: "dt_le e close_t"
    and run: "slot_loop busy delta close_t cur sl = Some (Inr out)"
    by simp_all
  from slot_loop_step [OF a l, of busy sl] run free
  have "slot_loop busy delta close_t e (sl @ [isoformat cur]) = Some (Inr out)"
    by simp
  moreover from h have "0 < delta" by simp
  ultimately obtain rest where "out = (sl @ [isoformat cur]) @ rest"
    using slot_loop_prefix by blast
  then show "isoformat cur \<in> set out" by simp
next
  show "weekday (wall_at 2024 6 1 0 0) = 5" by code_simp
next
  show "fetch_busy_intervals_ical saturday_world (wall_at 2024 6 1 0 0) cest
       = ([feed_url], Inr [(at_cest 2024 6 1 10 0, at_cest 2024 6 1 11 0)])"
    using saturday_fetch by (simp add: saturday_busy_def)
next
  show "generate_slots saturday_world ''2024-06-01'' 30 =
       Some ([feed_url],
         Inr \<lparr>date = ''2024-06-01'', timezone = ''Europe/Amsterdam'', slot_minutes = 30,
              slots = [''2024-06-01T11:00:00+02:00'', ''2024-06-01T11:30:00+02:00'',
                       ''2024-06-01T12:00:00+02:00'', ''2024-06-01T12:30:00+02:00'',
                       ''2024-06-01T13:00:00+02:00'', ''2024-06-01T13:30:00+02:00''],
              configured = True\<rparr>)"
    using saturday_request by (simp add: saturday_slots_def)
qed

text \<open>
  The first part at a candidate that ends when the busy interval starts (09:30 to 10:00)
  and at one that starts when it ends (11:00 to 11:30).
\<close>

theorem adjacent_slots_are_emitted_witness:
  "dt_add (at_cest 2024 6 1 9 30) (30 * us_per_minute) = Inr (at_cest 2024 6 1 10 0)
   \<and> slot_loop saturday_busy (30 * us_per_minute) (at_cest 2024 6 1 10 30)
         (at_cest 2024 6 1 9 30) [] = Some (Inr [''2024-06-01T09:30:00+02:00''])
   \<and> is_free saturday_busy (at_cest 2024 6 1 9 30) (at_cest 2024 6 1 10 0)
   \<and> isoformat (at_cest 2024 6 1 9 30) \<in> set [''2024-06-01T09:30:00+02:00'']
   \<and> dt_add (at_cest 2024 6 1 11 0) (30 * us_per_minute) = Inr (at_cest 2024 6 1 11 30)
   \<and> slot_loop saturday_busy (30 * us_per_minute) (at_cest 2024 6 1 12 0)
         (at_cest 2024 6 1 11 0) []
       = Some (Inr [''2024-06-01T11:00:00+02:00'', ''2024-06-01T11:30:00+02:00''])
   \<and> is_free saturday_busy (at_cest 2024 6 1 11 0) (at_cest 2024 6 1 11 30)
   \<and> isoformat (at_cest 2024 6 1 11 0)
       \<in> set [''2024-06-01T11:00:00+02:00'', ''2024-06-01T11:30:00+02:00'']"
proof -
  let ?delta = "30 * us_per_minute"
  let ?b_start = "at_cest 2024 6 1 10 0" and ?b_end = "at_cest 2024 6 1 11 0"
  have pos: "0 < ?delta" by (simp add: us_per_minute_def)
  have busy: "(?b_start, ?b_end) \<in> set saturday_busy" by (simp add: saturday_busy_def)
  have others: "\<forall>b \<in> set saturday_busy. b \<noteq> (?b_start, ?b_end) \<longrightarrow> \<not> (dt_lt c (snd b) \<and> dt_gt e (fst b))"
    for c e
    by (simp add: saturday_busy_def)
  have add1: "dt_add (at_cest 2024 6 1 9 30) ?delta = Inr (at_cest 2024 6 1 10 0)"
    by code_simp
  have le1: "dt_le (at_cest 2024 6 1 10 0) (at_cest 2024 6 1 10 30)"
    by code_simp
  have run1: "slot_loop saturday_busy ?delta (at_cest 2024 6 1 10 30) (at_cest 2024 6 1 9 30) []
      = Some (Inr [''2024-06-01T09:30:00+02:00''])"
    by code_simp
  have add2: "dt_add (at_cest 2024 6 1 11 0) ?delta = Inr (at_cest 2024 6 1 11 30)"
    by code_simp
  have le2: "dt_le (at_cest 2024 6 1 11 30) (at_cest 2024 6 1 12 0)"
    by code_simp
  have run2: "slot_loop saturday_busy ?delta (at_cest 2024 6 1 12 0) (at_cest 2024 6 1 11 0) []
      = Some (Inr [''2024-06-01T11:00:00+02:00'', ''2024-06-01T11:30:00+02:00''])"
    by code_simp
  have one: "is_free saturday_busy (at_cest 2024 6 1 9 30) (at_cest 2024 6 1 10 0)
      \<and> isoformat (at_cest 2024 6 1 9 30) \<in> set [''2024-06-01T09:30:00+02:00'']"
    using adjacent_slots_are_emitted [of ?delta "at_cest 2024 6 1 9 30" "at_cest 2024 6 1 10 0"
        "at_cest 2024 6 1 10 30" ?b_start ?b_end saturday_busy "[]" "[''2024-06-01T09:30:00+02:00'']"]
      pos add1 le1 busy others run1
    by blast
  have two: "is_free saturday_busy (at_cest 2024 6 1 11 0) (at_cest 2024 6 1 11 30)
      \<and> isoformat (at_cest 2024 6 1 11 0)
          \<in> set [''2024-06-01T11:00:00+02:00'', ''2024-06-01T11:30:00+02:00'']"
    using adjacent_slots_are_emitted [of ?delta "at_cest 2024 6 1 11 0" "at_cest 2024 6 1 11 30"
        "at_cest 2024 6 1 12 0" ?b_start ?b_end saturday_busy "[]"
        "[''2024-06-01T11:00:00+02:00'', ''2024-06-01T11:30:00+02:00'']"]
      pos add2 le2 busy others run2
    by blast
  from add1 run1 one add2 run2 two show ?thesis by blast
qed

text \<open>
  Claim C9 says that no exception leaves \<^verbatim>\<open>generate_slots\<close> for a date the route's
  pattern accepts. The pattern accepts \<^verbatim>\<open>2024-02-30\<close>, a date that is not in the
  calendar: \<^verbatim>\<open>strptime\<close> raises \<^verbatim>\<open>ValueError\<close> at line 160, which nothing catches.
  In every environment the request ends in an exception: this one, or the error of the
  zone lookup of line 157 when the zone name is unknown.
\<close>

theorem invalid_calendar_date_raises:
  "date_pattern ''2024-02-30'' \<and> strptime ''2024-02-30'' = Inl ValueError
   \<and> availability w ''2024-02-30'' 30 =
       Some ([], Inl (case pytz_timezone w (getenv_default w ''BUSINESS_TZ'' ''Europe/Amsterdam'') of
                        Inl err \<Rightarrow> err
                      | Inr tz \<Rightarrow> ValueError))
   \<and> availability saturday_world ''2024-02-30'' 30 = Some ([], Inl ValueError)"
proof -
  have p: "date_pattern ''2024-02-30''" by code_simp
  have s: "strptime ''2024-02-30'' = Inl ValueError" by code_simp
  have any: "availability w ''2024-02-30'' 30 =
       Some ([], Inl (case pytz_timezone w (getenv_default w ''BUSINESS_TZ'' ''Europe/Amsterdam'') of
                        Inl err \<Rightarrow> err
                      | Inr tz \<Rightarrow> ValueError))"
    using p s by (simp add: availability_def generate_slots_def Let_def split: sum.splits)
  have one: "availability saturday_world ''2024-02-30'' 30 = Some ([], Inl ValueError)"
    by code_simp
  from p s any one show ?thesis by blast
qed

text \<open>
  The \<^verbatim>\<open>configured\<close> flag of every response is \<^verbatim>\<open>bool(os.getenv(...))\<close>: it depends
  on the environment only, not on the fetch.
\<close>

lemma generate_slots_configured:
  "generate_slots w date_str slot_mins = Some (reqs, Inr r)
   \<Longrightarrow> configured r = env_truthy w ''GOOGLE_CALENDAR_ICAL_URL''"
  by (auto simp: generate_slots_def Let_def split: sum.splits option.splits prod.splits)

text \<open>
  Claim C4 says that a blank feed URL gives \<^verbatim>\<open>configured = False\<close>. With the URL set
  to one space the fetcher strips it, finds it empty and requests nothing, yet the
  response says \<^verbatim>\<open>configured = True\<close>: the flag is computed without the
  \<^verbatim>\<open>strip()\<close> of line 98.
\<close>

theorem blank_url_is_reported_configured:
  "getenv blank_url_world ''GOOGLE_CALENDAR_ICAL_URL'' = Some '' ''
   \<and> strip (getenv_default blank_url_world ''GOOGLE_CALENDAR_ICAL_URL'' []) = []
   \<and> fetch_busy_intervals_ical blank_url_world (wall_at 2024 6 1 0 0) cest = ([], Inr [])
   \<and> generate_slots blank_url_world ''2024-06-01'' 30 =
       Some ([],
         Inr \<lparr>date = ''2024-06-01'', timezone = ''Europe/Amsterdam'', slot_minutes = 30,
              slots = [''2024-06-01T10:00:00+02:00'', ''2024-06-01T10:30:00+02:00'',
                       ''2024-06-01T11:00:00+02:00'', ''2024-06-01T11:30:00+02:00'',
                       ''2024-06-01T12:00:00+02:00'', ''2024-06-01T12:30:00+02:00'',
                       ''2024-06-01T13:00:00+02:00'', ''2024-06-01T13:30:00+02:00''],
              configured = True\<rparr>)"
  by code_simp

subsection \<open>A request with a slot length of zero\<close>

text \<open>
  Nothing in the route or in \<^verbatim>\<open>generate_slots\<close> checks that \<^verbatim>\<open>slot_minutes\<close> is
  positive. With a step of zero the cursor does not move: when it is a valid datetime that
  is not after the close of the window, the loop does not return.
\<close>

lemma slot_loop_zero_never_returns:
  assumes "slot_loop busy delta end_t cur sl = Some y"
  shows "\<not> (delta = 0 \<and> dt_add cur 0 = Inr cur \<and> dt_le cur end_t)"
proof (rule slot_loop.raw_induct [where P = "\<lambda>busy delta end_t cur sl y.
    \<not> (delta = 0 \<and> dt_add cur 0 = Inr cur \<and> dt_le cur end_t)", OF _ assms])
  fix f busy delta end_t cur sl y
  assume IH: "\<And>b d e c s r. f b d e c s = Some r
      \<Longrightarrow> \<not> (d = 0 \<and> dt_add c 0 = Inr c \<and> dt_le c e)"
    and step: "(case dt_add cur delta of
        Inl err \<Rightarrow> Some (Inl err)
      | Inr e \<Rightarrow>
          if dt_le e end_t
          then f busy delta end_t e (if is_free busy cur e then sl @ [isoformat cur] else sl)
          else Some (Inr sl)) = Some y"
  show "\<not> (delta = 0 \<and> dt_add cur 0 = Inr cur \<and> dt_le cur end_t)"
  proof
    assume h: "delta = 0 \<and> dt_add cur 0 = Inr cur \<and> dt_le cur end_t"
    with step
    have "f busy delta end_t cur (if is_free busy cur cur then sl @ [isoformat cur] else sl)
        = Some y"
      by simp
    from IH [OF this] h show False by simp
  qed
qed

lemma slot_loop_zero_diverges:
  "dt_add cur 0 = Inr cur \<Longrightarrow> dt_le cur end_t \<Longrightarrow> slot_loop busy 0 end_t cur sl = None"
  using slot_loop_zero_never_returns [of busy 0 end_t cur sl] by (cases "slot_loop busy 0 end_t cur sl") auto

text \<open>
  The route accepts the request, and the computation does not return.
\<close>

lemma zero_slot_minutes_never_returns:
  "date_pattern ''2024-06-01'' \<and> availability unconfigured_world ''2024-06-01'' 0 = None"
proof -
  have p: "date_pattern ''2024-06-01''" by code_simp
  have d: "strptime ''2024-06-01'' = Inr (wall_at 2024 6 1 0 0)" by code_simp
  have h: "get_business_hours (wall_at 2024 6 1 0 0) = Some (Time 10 0, Time 14 0)" by code_simp
  have z: "getenv_default unconfigured_world ''BUSINESS_TZ'' ''Europe/Amsterdam'' = ''Europe/Amsterdam''"
    by code_simp
  have tz: "pytz_timezone unconfigured_world ''Europe/Amsterdam'' = Inr cest"
    by (simp add: unconfigured_world_def zone_database_def)
  have f: "fetch_busy_intervals_ical unconfigured_world (wall_at 2024 6 1 0 0) cest = ([], Inr [])"
    by code_simp
  have t: "timedelta_minutes 0 = Inr 0" by code_simp
  have s: "localize cest (combine (wall_at 2024 6 1 0 0) (Time 10 0))
      = Inr (at_cest 2024 6 1 10 0)"
    by code_simp
  have e: "localize cest (combine (wall_at 2024 6 1 0 0) (Time 14 0))
      = Inr (at_cest 2024 6 1 14 0)"
    by code_simp
  have a: "dt_add (at_cest 2024 6 1 10 0) 0 = Inr (at_cest 2024 6 1 10 0)" by code_simp
  have l: "dt_le (at_cest 2024 6 1 10 0) (at_cest 2024 6 1 14 0)" by code_simp
  have "slot_loop [] 0 (at_cest 2024 6 1 14 0) (at_cest 2024 6 1 10 0) [] = None"
    using a l by (rule slot_loop_zero_diverges)
  then have "generate_slots unconfigured_world ''2024-06-01'' 0 = None"
    by (simp add: generate_slots_def Let_def d h z tz f t s e)
  with p show ?thesis by (simp add: availability_def)
qed

end
